theory Spec2Isabelle
  imports Main "HOL-Library.Word"
begin

unbundle bit_operations_syntax

section \<open>Exynos dual cluster support (arch/arm/mach-exynos/edcs.c)\<close>

text \<open>
  A shallow embedding of the power sequencer of \<^verbatim>\<open>edcs.c\<close>. The file's static variables
  are the fields of one state record. Every call that leaves the file (a bus access, a
  barrier, a call into MCPM, the interrupt controller, the CCI driver, an inline assembly
  block) appends one event to a trace, in program order, so that the order of the calls can
  be stated. Values the code obtains from outside (the MPIDR of the executing core, the
  answers of the MCPM coordinator, what a status register reads) are inputs of the model.
  \<^verbatim>\<open>BUG()\<close> and a failing \<^verbatim>\<open>BUG_ON\<close> end the execution: they are a result of their own,
  which carries the state reached at the halt. \<^verbatim>\<open>pr_debug\<close> is left out.
\<close>

subsection \<open>Machine types and constants\<close>

text \<open>\<^verbatim>\<open>unsigned int\<close> and \<^verbatim>\<open>u32\<close> are 32-bit words; \<^verbatim>\<open>int\<close> is a 32-bit word read in two's
  complement (\<open>sint\<close>), with wrapping \<open>+\<close> and \<open>-\<close>. The counters of this file are compared
  with 0, 1 and 2 only, and every other value of a use count is fatal.\<close>

type_synonym u32 = "32 word"
type_synonym c_int = "32 word"

definition EDCS_CPUS_PER_CLUSTER :: u32 where
  "EDCS_CPUS_PER_CLUSTER = 4"

definition EDCS_CLUSTERS :: u32 where
  "EDCS_CLUSTERS = 2"

definition SECONDARY_RESET :: u32 where
  "SECONDARY_RESET = push_bit 1 1"

text \<open>
  Macros and constants that \<^verbatim>\<open>edcs.c\<close> takes from headers outside the file
  (\<^verbatim>\<open>asm/mcpm.h\<close>, \<^verbatim>\<open>asm/cputype.h\<close>, \<^verbatim>\<open>mach/regs-pmu.h\<close>, \<^verbatim>\<open>linux/errno.h\<close>). They are
  parameters of the model: every theorem below holds for each choice of them.
\<close>

record platform =
  MAX_CPUS_PER_CLUSTER :: u32
  S5P_CORE_LOCAL_PWR_EN :: u32
  CLUSTER_UP :: u32
  CLUSTER_DOWN :: u32
  ARM_CPU_PART_CORTEX_A15 :: u32
  ENODEV :: c_int
  MPIDR_AFFINITY_LEVEL :: "u32 \<Rightarrow> nat \<Rightarrow> u32"

text \<open>
  The memory-mapped registers the file touches. Their base addresses
  (\<^verbatim>\<open>S5P_ARM_CORE0_CONFIGURATION\<close>, \<^verbatim>\<open>S5P_VA_SYSRAM_NS\<close>) are outside the file, so a register is
  named by its macro and the macro's argument.
\<close>

datatype reg =
    EDCS_CORE_CONFIGURATION u32
  | EDCS_CORE_STATUS u32
  | REG_CPU_STATE_ADDR u32
  | REG_ENTRY_ADDR

text \<open>
  One event per call that leaves the file, named after the callee, with the arguments the
  code passes. The three \<open>Asm\<close> events are the inline assembly blocks of
  \<^verbatim>\<open>exynos_power_down\<close>: \<open>Asm_disable_l2_prefetch\<close> is the write of \<^verbatim>\<open>0x400\<close> to the L2
  prefetch control register on a Cortex-A15; \<open>Asm_flush_dcache_all\<close> clears \<^verbatim>\<open>CR_C\<close>, calls
  \<^verbatim>\<open>v7_flush_dcache_all\<close> and clears bit 6 of the auxiliary control register (the whole-cluster
  cache teardown); \<open>Asm_flush_dcache_louis\<close> is the same block with \<^verbatim>\<open>v7_flush_dcache_louis\<close>
  (the local one). \<open>Wfi\<close> is the \<^verbatim>\<open>wfi()\<close> that ends a power-down; the C function returns
  after it, and so does the model.
\<close>

datatype event =
    Local_irq_disable
  | Local_irq_enable
  | Arch_spin_lock
  | Arch_spin_unlock
  | Readl_relaxed reg
  | Wmb
  | Writel_relaxed u32 reg
  | Mcpm_cpu_going_down u32 u32
  | Gic_cpu_if_down
  | Mcpm_outbound_enter_critical u32 u32
  | Asm_disable_l2_prefetch
  | Asm_flush_dcache_all
  | Asm_flush_dcache_louis
  | Cci_disable_port_by_cpu u32
  | Mcpm_outbound_leave_critical u32 u32
  | Mcpm_cpu_down u32 u32
  | Wfi
  | Mcpm_smp_set_ops
  | Mcpm_platform_register
  | Mcpm_sync_init
  | Pr_info

subsection \<open>State\<close>

text \<open>
  \<open>edcs_lock\<close>, \<open>edcs_use_count\<close> and \<open>core_count\<close> are the three static variables of the
  file. The two arrays are read and written only behind the range check on their indices,
  so they are functions of the indices. \<open>mmio\<close> is what a register reads (the device's
  answer; the code reads only \<^verbatim>\<open>EDCS_CORE_STATUS\<close>, which it never writes), \<open>trace\<close> the
  events so far, oldest first.
\<close>

record edcs_state =
  edcs_lock :: bool
  edcs_use_count :: "u32 \<Rightarrow> u32 \<Rightarrow> c_int"
  core_count :: "u32 \<Rightarrow> c_int"
  mmio :: "reg \<Rightarrow> u32"
  trace :: "event list"

datatype 'a outcome = BUG edcs_state | Return edcs_state 'a

text \<open>
  The primitives the file calls on its own state. The lock is a flag: \<open>arch_spin_lock\<close>
  returns with it set and \<open>arch_spin_unlock\<close> clears it. A call that finds the lock held by
  another core waits for its release, so the state a call sees behind the lock is the state
  the previous holder left.
\<close>

definition emit :: "event \<Rightarrow> edcs_state \<Rightarrow> edcs_state" where
  "emit e s = s\<lparr>trace := trace s @ [e]\<rparr>"

definition local_irq_disable :: "edcs_state \<Rightarrow> edcs_state" where
  "local_irq_disable s = emit Local_irq_disable s"

definition local_irq_enable :: "edcs_state \<Rightarrow> edcs_state" where
  "local_irq_enable s = emit Local_irq_enable s"

definition arch_spin_lock :: "edcs_state \<Rightarrow> edcs_state" where
  "arch_spin_lock s = emit Arch_spin_lock (s\<lparr>edcs_lock := True\<rparr>)"

definition arch_spin_unlock :: "edcs_state \<Rightarrow> edcs_state" where
  "arch_spin_unlock s = emit Arch_spin_unlock (s\<lparr>edcs_lock := False\<rparr>)"

definition set_use_count :: "u32 \<Rightarrow> u32 \<Rightarrow> c_int \<Rightarrow> edcs_state \<Rightarrow> edcs_state" where
  "set_use_count cpu cluster v s =
     s\<lparr>edcs_use_count := (edcs_use_count s)(cpu := (edcs_use_count s cpu)(cluster := v))\<rparr>"

definition set_core_count :: "u32 \<Rightarrow> c_int \<Rightarrow> edcs_state \<Rightarrow> edcs_state" where
  "set_core_count cluster v s = s\<lparr>core_count := (core_count s)(cluster := v)\<rparr>"

subsection \<open>The hardware power gate and the boot flag\<close>

definition exynos_core_power_control :: "platform \<Rightarrow> u32 \<Rightarrow> u32 \<Rightarrow> bool \<Rightarrow> edcs_state \<Rightarrow> edcs_state" where
  "exynos_core_power_control pf cpu cluster enable s =
     (let offset = cluster * MAX_CPUS_PER_CLUSTER pf + cpu;
          val = (if enable then S5P_CORE_LOCAL_PWR_EN pf else 0);
          s1 = emit (Readl_relaxed (EDCS_CORE_STATUS offset)) s
      in if mmio s (EDCS_CORE_STATUS offset) AND 3 \<noteq> val
         then emit (Writel_relaxed val (EDCS_CORE_CONFIGURATION offset)) (emit Wmb s1)
         else s1)"

definition exynos_core_power_up :: "platform \<Rightarrow> u32 \<Rightarrow> u32 \<Rightarrow> edcs_state \<Rightarrow> edcs_state" where
  "exynos_core_power_up pf cpu cluster s = exynos_core_power_control pf cpu cluster True s"

definition exynos_core_power_down :: "platform \<Rightarrow> u32 \<Rightarrow> u32 \<Rightarrow> edcs_state \<Rightarrow> edcs_state" where
  "exynos_core_power_down pf cpu cluster s = exynos_core_power_control pf cpu cluster False s"

definition set_boot_flag :: "u32 \<Rightarrow> u32 \<Rightarrow> edcs_state \<Rightarrow> edcs_state" where
  "set_boot_flag cpu mode s = emit (Writel_relaxed mode (REG_CPU_STATE_ADDR cpu)) s"

subsection \<open>power_up\<close>

definition exynos_power_up :: "platform \<Rightarrow> u32 \<Rightarrow> u32 \<Rightarrow> edcs_state \<Rightarrow> c_int outcome" where
  "exynos_power_up pf cpu cluster s =
     (if cpu \<ge> EDCS_CPUS_PER_CLUSTER \<or> cluster \<ge> EDCS_CLUSTERS then BUG s
      else
        let s1 = arch_spin_lock (local_irq_disable s);
            s2 = set_use_count cpu cluster (edcs_use_count s1 cpu cluster + 1) s1
        in if edcs_use_count s2 cpu cluster = 1 then
             let s3 = set_core_count cluster (core_count s2 cluster + 1) s2;
                 s4 = set_boot_flag cpu SECONDARY_RESET s3;
                 s5 = exynos_core_power_up pf cpu cluster s4
             in Return (local_irq_enable (arch_spin_unlock s5)) 0
           else if edcs_use_count s2 cpu cluster \<noteq> 2 then BUG s2
           else Return (local_irq_enable (arch_spin_unlock s2)) 0)"

subsection \<open>power_down\<close>

text \<open>
  What one execution of \<^verbatim>\<open>exynos_power_down\<close> obtains from outside the file:
  \<open>pd_mpidr\<close> is \<^verbatim>\<open>read_cpuid_mpidr()\<close>, \<open>pd_cluster_state\<close> what
  \<^verbatim>\<open>__mcpm_cluster_state(cluster)\<close> returns, \<open>pd_enter_critical\<close> what
  \<^verbatim>\<open>__mcpm_outbound_enter_critical(cpu, cluster)\<close> returns if it is called, and
  \<open>pd_part_number\<close> is \<^verbatim>\<open>read_cpuid_part_number()\<close>.
\<close>

record pd_inputs =
  pd_mpidr :: u32
  pd_cluster_state :: u32
  pd_enter_critical :: bool
  pd_part_number :: u32

text \<open>
  The part of \<^verbatim>\<open>exynos_power_down\<close> after the bookkeeping, from the test of
  \<^verbatim>\<open>skip_wfi\<close> before \<^verbatim>\<open>gic_cpu_if_down()\<close> to the end, with the local variables it
  reads as arguments. \<^verbatim>\<open>last_man && __mcpm_outbound_enter_critical(cpu, cluster)\<close> calls the
  coordinator only when \<^verbatim>\<open>last_man\<close> is set.
\<close>

definition exynos_power_down_tail ::
  "platform \<Rightarrow> pd_inputs \<Rightarrow> u32 \<Rightarrow> u32 \<Rightarrow> bool \<Rightarrow> bool \<Rightarrow> edcs_state \<Rightarrow> edcs_state" where
  "exynos_power_down_tail pf inp cpu cluster last_man skip_wfi s =
     (let s1 = (if \<not> skip_wfi then emit Gic_cpu_if_down s else s);
          s2 = (if last_man then emit (Mcpm_outbound_enter_critical cpu cluster) s1 else s1);
          s3 = (if last_man \<and> pd_enter_critical inp then
                  let a = arch_spin_unlock s2;
                      b = (if pd_part_number inp = ARM_CPU_PART_CORTEX_A15 pf
                           then emit Asm_disable_l2_prefetch a else a);
                      c = emit Asm_flush_dcache_all b;
                      d = emit (Cci_disable_port_by_cpu (pd_mpidr inp)) c
                  in emit (Mcpm_outbound_leave_critical cluster (CLUSTER_DOWN pf)) d
                else emit Asm_flush_dcache_louis (arch_spin_unlock s2));
          s4 = emit (Mcpm_cpu_down cpu cluster) s3
      in if \<not> skip_wfi then emit Wfi (exynos_core_power_down pf cpu cluster s4) else s4)"

definition exynos_power_down :: "platform \<Rightarrow> pd_inputs \<Rightarrow> edcs_state \<Rightarrow> unit outcome" where
  "exynos_power_down pf inp s =
     (let mpidr = pd_mpidr inp;
          cpu = MPIDR_AFFINITY_LEVEL pf mpidr 0;
          cluster = MPIDR_AFFINITY_LEVEL pf mpidr 1
      in if cpu \<ge> EDCS_CPUS_PER_CLUSTER \<or> cluster \<ge> EDCS_CLUSTERS then BUG s
      else
        let s1 = arch_spin_lock (emit (Mcpm_cpu_going_down cpu cluster) s)
        in if pd_cluster_state inp \<noteq> CLUSTER_UP pf then BUG s1
        else
          let s2 = set_use_count cpu cluster (edcs_use_count s1 cpu cluster - 1) s1
          in if edcs_use_count s2 cpu cluster = 0 then
               let s3 = set_core_count cluster (core_count s2 cluster - 1) s2;
                   last_man = (core_count s3 cluster = 0)
               in Return (exynos_power_down_tail pf inp cpu cluster last_man False s3) ()
             else if edcs_use_count s2 cpu cluster = 1 then
               Return (exynos_power_down_tail pf inp cpu cluster False True s2) ()
             else BUG s2)"

subsection \<open>Initialisation\<close>

definition edcs_data_init :: "platform \<Rightarrow> u32 \<Rightarrow> edcs_state \<Rightarrow> unit outcome" where
  "edcs_data_init pf mpidr s =
     (let cpu = MPIDR_AFFINITY_LEVEL pf mpidr 0;
          cluster = MPIDR_AFFINITY_LEVEL pf mpidr 1
      in if cpu \<ge> EDCS_CPUS_PER_CLUSTER \<or> cluster \<ge> EDCS_CLUSTERS then BUG s
      else
        let s1 = set_use_count cpu cluster 1 s
        in Return (set_core_count cluster (core_count s1 cluster + 1) s1) ())"

text \<open>
  What \<^verbatim>\<open>edcs_init\<close> obtains from outside the file: whether
  \<^verbatim>\<open>of_find_compatible_node\<close> found the node, what \<^verbatim>\<open>cci_probed()\<close> returns,
  \<^verbatim>\<open>virt_to_phys(mcpm_entry_point)\<close>, the MPIDR of the boot core, and what
  \<^verbatim>\<open>mcpm_platform_register\<close> returns.
\<close>

record init_inputs =
  in_node_found :: bool
  in_cci_probed :: bool
  in_entry_point :: u32
  in_mpidr :: u32
  in_register_ret :: c_int

definition edcs_init :: "platform \<Rightarrow> init_inputs \<Rightarrow> edcs_state \<Rightarrow> c_int outcome" where
  "edcs_init pf inp s =
     (if \<not> in_node_found inp then Return s (- ENODEV pf)
      else if \<not> in_cci_probed inp then Return s (- ENODEV pf)
      else
        let s1 = emit (Writel_relaxed (in_entry_point inp) REG_ENTRY_ADDR) s
        in case edcs_data_init pf (in_mpidr inp) s1 of
             BUG h \<Rightarrow> BUG h
           | Return s2 _ \<Rightarrow>
               let s3 = emit Mcpm_smp_set_ops s2;
                   s4 = emit Mcpm_platform_register s3;
                   ret = in_register_ret inp
               in if ret = 0 then Return (emit Pr_info (emit Mcpm_sync_init s4)) ret
                  else Return s4 ret)"

subsection \<open>Observing an execution\<close>

text \<open>
  \<open>final\<close> is the state an execution ends in, whether it returned or halted; \<open>emitted s s'\<close>
  are the events added between the states \<open>s\<close> and \<open>s'\<close>.
\<close>

fun final :: "'a outcome \<Rightarrow> edcs_state" where
  "final (BUG s) = s"
| "final (Return s r) = s"

fun retval :: "'a outcome \<Rightarrow> 'a option" where
  "retval (BUG s) = None"
| "retval (Return s r) = Some r"

fun returned :: "'a outcome \<Rightarrow> bool" where
  "returned (BUG s) = False"
| "returned (Return s r) = True"

definition emitted :: "edcs_state \<Rightarrow> edcs_state \<Rightarrow> event list" where
  "emitted s s' = drop (length (trace s)) (trace s')"

definition power_gate_events :: "platform \<Rightarrow> u32 \<Rightarrow> u32 \<Rightarrow> bool \<Rightarrow> edcs_state \<Rightarrow> event list" where
  "power_gate_events pf cpu cluster enable s =
     emitted s (exynos_core_power_control pf cpu cluster enable s)"

text \<open>The events of \<open>exynos_power_down_tail\<close>, in program order.\<close>

definition tail_events :: "platform \<Rightarrow> pd_inputs \<Rightarrow> u32 \<Rightarrow> u32 \<Rightarrow> bool \<Rightarrow> bool \<Rightarrow> edcs_state \<Rightarrow> event list" where
  "tail_events pf inp cpu cluster last_man skip_wfi s =
     (if \<not> skip_wfi then [Gic_cpu_if_down] else []) @
     (if last_man then [Mcpm_outbound_enter_critical cpu cluster] else []) @
     [Arch_spin_unlock] @
     (if last_man \<and> pd_enter_critical inp
      then (if pd_part_number inp = ARM_CPU_PART_CORTEX_A15 pf then [Asm_disable_l2_prefetch] else []) @
           [Asm_flush_dcache_all, Cci_disable_port_by_cpu (pd_mpidr inp),
            Mcpm_outbound_leave_critical cluster (CLUSTER_DOWN pf)]
      else [Asm_flush_dcache_louis]) @
     [Mcpm_cpu_down cpu cluster] @
     (if \<not> skip_wfi then power_gate_events pf cpu cluster False s @ [Wfi] else [])"

text \<open>The core and cluster that \<^verbatim>\<open>exynos_power_down\<close> decodes from the MPIDR it reads.\<close>

definition pd_cpu :: "platform \<Rightarrow> pd_inputs \<Rightarrow> u32" where
  "pd_cpu pf inp = MPIDR_AFFINITY_LEVEL pf (pd_mpidr inp) 0"

definition pd_cluster :: "platform \<Rightarrow> pd_inputs \<Rightarrow> u32" where
  "pd_cluster pf inp = MPIDR_AFFINITY_LEVEL pf (pd_mpidr inp) 1"

definition pd_in_range :: "platform \<Rightarrow> pd_inputs \<Rightarrow> bool" where
  "pd_in_range pf inp \<longleftrightarrow>
     pd_cpu pf inp < EDCS_CPUS_PER_CLUSTER \<and> pd_cluster pf inp < EDCS_CLUSTERS"

subsection \<open>Sequences of requests and the bookkeeping invariant\<close>

text \<open>
  The two tables are read and written only between \<^verbatim>\<open>arch_spin_lock(&edcs_lock)\<close> and
  \<^verbatim>\<open>arch_spin_unlock(&edcs_lock)\<close>, so with respect to the tables the critical sections of
  concurrent calls execute one after the other. The tables at a point where no core holds
  the lock are therefore the tables after a sequence of whole calls, which \<open>run\<close> executes;
  it stops at the first call that halts.
\<close>

datatype request = Power_up u32 u32 | Power_down pd_inputs

fun run :: "platform \<Rightarrow> request list \<Rightarrow> edcs_state \<Rightarrow> unit outcome" where
  "run pf [] s = Return s ()"
| "run pf (Power_up cpu cluster # rs) s =
     (case exynos_power_up pf cpu cluster s of BUG h \<Rightarrow> BUG h | Return s' _ \<Rightarrow> run pf rs s')"
| "run pf (Power_down inp # rs) s =
     (case exynos_power_down pf inp s of BUG h \<Rightarrow> BUG h | Return s' _ \<Rightarrow> run pf rs s')"

definition core_ids :: "u32 list" where
  "core_ids = map of_nat [0..<unat EDCS_CPUS_PER_CLUSTER]"

definition cluster_ids :: "u32 list" where
  "cluster_ids = map of_nat [0..<unat EDCS_CLUSTERS]"

text \<open>The cores of a cluster whose use count is at least 1, and the invariant of section 3
  of the specification.\<close>

definition active_cores :: "edcs_state \<Rightarrow> u32 \<Rightarrow> u32 list" where
  "active_cores s cluster = filter (\<lambda>cpu. 1 \<le> sint (edcs_use_count s cpu cluster)) core_ids"

definition edcs_invariant :: "edcs_state \<Rightarrow> bool" where
  "edcs_invariant s \<longleftrightarrow>
     list_all (\<lambda>cluster.
        list_all (\<lambda>cpu. edcs_use_count s cpu cluster \<in> {0, 1, 2}) core_ids \<and>
        sint (core_count s cluster) = int (length (active_cores s cluster))) cluster_ids"

text \<open>The same invariant with the core count compared as a word, for all in-range indices;
  the proofs work with this form.\<close>

definition tables_ok :: "edcs_state \<Rightarrow> bool" where
  "tables_ok s \<longleftrightarrow>
     (\<forall>cpu cluster. cpu < EDCS_CPUS_PER_CLUSTER \<longrightarrow> cluster < EDCS_CLUSTERS \<longrightarrow>
        edcs_use_count s cpu cluster \<in> {0, 1, 2}) \<and>
     (\<forall>cluster. cluster < EDCS_CLUSTERS \<longrightarrow>
        core_count s cluster = word_of_nat (length (active_cores s cluster)))"

subsection \<open>Concrete inputs\<close>

text \<open>
  \<open>static_init\<close> is the state before \<^verbatim>\<open>edcs_init\<close>: the static variables as C initialises
  them (the lock unlocked, the arrays zero), over given register contents. \<open>exynos5410\<close>
  gives the platform constants the values of the Linux headers; it is used only to evaluate
  the model at concrete inputs. \<open>boot_mmio\<close> are registers on which the status of core 0 of
  cluster 0 reads powered and every other register reads 0, \<open>boot_state\<close> is the state
  \<^verbatim>\<open>edcs_init\<close> leaves on that core, \<open>raced_state\<close> the state after a \<^verbatim>\<open>power_up\<close> of that running core, and
  \<open>pd_of mpidr won\<close> the inputs of a power-down on the core with that MPIDR, the cluster
  being up.
\<close>

definition static_init :: "(reg \<Rightarrow> u32) \<Rightarrow> edcs_state" where
  "static_init m = \<lparr>edcs_lock = False, edcs_use_count = (\<lambda>_ _. 0), core_count = (\<lambda>_. 0),
     mmio = m, trace = []\<rparr>"

definition exynos5410 :: platform where
  "exynos5410 = \<lparr>MAX_CPUS_PER_CLUSTER = 4, S5P_CORE_LOCAL_PWR_EN = 3, CLUSTER_UP = 0x10,
     CLUSTER_DOWN = 0x11, ARM_CPU_PART_CORTEX_A15 = 0xC0F0, ENODEV = 19,
     MPIDR_AFFINITY_LEVEL = (\<lambda>m l. drop_bit (8 * l) m AND 0xFF)\<rparr>"

definition boot_mmio :: "reg \<Rightarrow> u32" where
  "boot_mmio = (\<lambda>_. 0)(EDCS_CORE_STATUS 0 := 3)"

definition boot_inputs :: init_inputs where
  "boot_inputs = \<lparr>in_node_found = True, in_cci_probed = True, in_entry_point = 0x40008000,
     in_mpidr = 0, in_register_ret = 0\<rparr>"

definition pd_of :: "u32 \<Rightarrow> bool \<Rightarrow> pd_inputs" where
  "pd_of mpidr won = \<lparr>pd_mpidr = mpidr, pd_cluster_state = 0x10, pd_enter_critical = won,
     pd_part_number = 0xC0F0\<rparr>"

definition boot_state :: edcs_state where
  "boot_state = \<lparr>edcs_lock = False, edcs_use_count = (\<lambda>_ _. 0)(0 := (\<lambda>_. 0)(0 := 1)),
     core_count = (\<lambda>_. 0)(0 := 1), mmio = boot_mmio,
     trace = [Writel_relaxed 0x40008000 REG_ENTRY_ADDR, Mcpm_smp_set_ops,
        Mcpm_platform_register, Mcpm_sync_init, Pr_info]\<rparr>"

definition demo_requests :: "request list" where
  "demo_requests = [Power_up 1 0, Power_up 0 0, Power_down (pd_of 0 True),
     Power_down (pd_of 1 False), Power_up 2 1, Power_down (pd_of 0 True),
     Power_down (pd_of 0x102 True), Power_up 3 0]"

definition raced_state :: edcs_state where
  "raced_state = final (exynos_power_up exynos5410 0 0 boot_state)"

subsection \<open>Predicates on the events of a power-down\<close>

text \<open>
  \<open>teardown_agent\<close>: the decrement of this core took its use count to 0 and the core count
  of its cluster to 0, and the coordinator grants the exclusive teardown.
  \<open>cluster_teardown_sequence\<close>: the whole-cache flush, the CCI port disable and the
  \<^verbatim>\<open>CLUSTER_DOWN\<close> notification, in this order. \<open>cache_maintenance_unlocked held es\<close> replays
  the lock events of \<open>es\<close>, starting with the lock held or not, and holds when no cache
  maintenance event of \<open>es\<close> occurs while the lock is held.
\<close>

definition teardown_agent :: "platform \<Rightarrow> pd_inputs \<Rightarrow> edcs_state \<Rightarrow> bool" where
  "teardown_agent pf inp s \<longleftrightarrow>
     edcs_use_count s (pd_cpu pf inp) (pd_cluster pf inp) - 1 = 0 \<and>
     core_count s (pd_cluster pf inp) - 1 = 0 \<and>
     pd_enter_critical inp"

definition cluster_teardown_sequence :: "platform \<Rightarrow> pd_inputs \<Rightarrow> event list" where
  "cluster_teardown_sequence pf inp =
     [Asm_flush_dcache_all, Cci_disable_port_by_cpu (pd_mpidr inp),
      Mcpm_outbound_leave_critical (pd_cluster pf inp) (CLUSTER_DOWN pf)]"

definition is_cluster_event :: "event \<Rightarrow> bool" where
  "is_cluster_event e =
     (case e of Asm_disable_l2_prefetch \<Rightarrow> True | Asm_flush_dcache_all \<Rightarrow> True
      | Cci_disable_port_by_cpu _ \<Rightarrow> True | Mcpm_outbound_leave_critical _ _ \<Rightarrow> True
      | _ \<Rightarrow> False)"

definition is_cache_maintenance :: "event \<Rightarrow> bool" where
  "is_cache_maintenance e \<longleftrightarrow>
     e = Asm_disable_l2_prefetch \<or> e = Asm_flush_dcache_all \<or> e = Asm_flush_dcache_louis"

primrec cache_maintenance_unlocked :: "bool \<Rightarrow> event list \<Rightarrow> bool" where
  "cache_maintenance_unlocked held [] = True"
| "cache_maintenance_unlocked held (e # es) =
     (if e = Arch_spin_lock then cache_maintenance_unlocked True es
      else if e = Arch_spin_unlock then cache_maintenance_unlocked False es
      else (is_cache_maintenance e \<longrightarrow> \<not> held) \<and> cache_maintenance_unlocked held es)"

text \<open>The number of \<^verbatim>\<open>writel_relaxed\<close> calls among some events.\<close>

definition bus_writes :: "event list \<Rightarrow> nat" where
  "bus_writes es = length (filter (\<lambda>e. case e of Writel_relaxed _ _ \<Rightarrow> True | _ \<Rightarrow> False) es)"

text \<open>Further inputs: a coordinator that reports the cluster down, a platform without the
  device-tree node, one whose CCI is not probed, and status registers that read 3 (powered)
  or 0 (not powered) everywhere.\<close>

definition pd_cluster_down :: pd_inputs where
  "pd_cluster_down = \<lparr>pd_mpidr = 0, pd_cluster_state = 0x11, pd_enter_critical = True,
     pd_part_number = 0xC0F0\<rparr>"

definition no_node :: init_inputs where
  "no_node = boot_inputs\<lparr>in_node_found := False\<rparr>"

definition no_cci :: init_inputs where
  "no_cci = boot_inputs\<lparr>in_cci_probed := False\<rparr>"

definition status_on :: "reg \<Rightarrow> u32" where
  "status_on r = 3"

definition status_off :: "reg \<Rightarrow> u32" where
  "status_off r = 0"

definition powered_state :: edcs_state where
  "powered_state = static_init status_on"

definition unpowered_state :: edcs_state where
  "unpowered_state = static_init status_off"

section \<open>Unfolding the operations\<close>

text \<open>
  The power gate only appends events. For in-range indices each operation is one conditional
  on the use count it computes, with the state it returns or halts in written out.
\<close>

lemmas prim_defs = emit_def local_irq_disable_def local_irq_enable_def arch_spin_lock_def
  arch_spin_unlock_def set_use_count_def set_core_count_def set_boot_flag_def
  exynos_core_power_up_def exynos_core_power_down_def

lemma power_control_unfold:
  "exynos_core_power_control pf cpu cluster enable s =
     s\<lparr>trace := trace s @ power_gate_events pf cpu cluster enable s\<rparr>"
  by (simp add: exynos_core_power_control_def power_gate_events_def emitted_def Let_def emit_def)

lemma power_gate_events_eq:
  "power_gate_events pf cpu cluster enable s =
     Readl_relaxed (EDCS_CORE_STATUS (cluster * MAX_CPUS_PER_CLUSTER pf + cpu)) #
       (if mmio s (EDCS_CORE_STATUS (cluster * MAX_CPUS_PER_CLUSTER pf + cpu)) AND 3 \<noteq>
            (if enable then S5P_CORE_LOCAL_PWR_EN pf else 0)
        then [Wmb, Writel_relaxed (if enable then S5P_CORE_LOCAL_PWR_EN pf else 0)
                (EDCS_CORE_CONFIGURATION (cluster * MAX_CPUS_PER_CLUSTER pf + cpu))]
        else [])"
  by (simp add: exynos_core_power_control_def power_gate_events_def emitted_def Let_def emit_def)

lemma power_down_tail_unfold:
  "exynos_power_down_tail pf inp cpu cluster last_man skip_wfi s =
     s\<lparr>edcs_lock := False, trace := trace s @ tail_events pf inp cpu cluster last_man skip_wfi s\<rparr>"
  by (simp add: exynos_power_down_tail_def tail_events_def Let_def prim_defs power_control_unfold
      power_gate_events_eq)

lemma in_range:
  "cpu < EDCS_CPUS_PER_CLUSTER \<Longrightarrow> cluster < EDCS_CLUSTERS \<Longrightarrow>
     (cpu \<ge> EDCS_CPUS_PER_CLUSTER \<or> cluster \<ge> EDCS_CLUSTERS) = False"
  by (simp add: not_le)

lemma power_down_unfold:
  assumes "pd_in_range pf inp" and "pd_cluster_state inp = CLUSTER_UP pf"
  shows "exynos_power_down pf inp s =
    (let cpu = pd_cpu pf inp; cluster = pd_cluster pf inp;
         u = edcs_use_count s cpu cluster - 1;
         c = core_count s cluster - 1;
         pre = [Mcpm_cpu_going_down cpu cluster, Arch_spin_lock]
     in if u = 0 then
          Return (s\<lparr>edcs_lock := False,
                    edcs_use_count := (edcs_use_count s)(cpu := (edcs_use_count s cpu)(cluster := u)),
                    core_count := (core_count s)(cluster := c),
                    trace := trace s @ pre @ tail_events pf inp cpu cluster (c = 0) False s\<rparr>) ()
        else if u = 1 then
          Return (s\<lparr>edcs_lock := False,
                    edcs_use_count := (edcs_use_count s)(cpu := (edcs_use_count s cpu)(cluster := u)),
                    trace := trace s @ pre @ tail_events pf inp cpu cluster False True s\<rparr>) ()
        else
          BUG (s\<lparr>edcs_lock := True,
                 edcs_use_count := (edcs_use_count s)(cpu := (edcs_use_count s cpu)(cluster := u)),
                 trace := trace s @ pre\<rparr>))"
  using assms
  by (simp add: exynos_power_down_def Let_def in_range power_down_tail_unfold pd_in_range_def
      pd_cpu_def pd_cluster_def tail_events_def power_gate_events_eq prim_defs)

lemma power_down_out_of_range:
  "\<not> pd_in_range pf inp \<Longrightarrow> exynos_power_down pf inp s = BUG s"
  by (auto simp add: exynos_power_down_def Let_def pd_in_range_def pd_cpu_def pd_cluster_def not_less)

lemma power_down_cluster_not_up:
  "pd_in_range pf inp \<Longrightarrow> pd_cluster_state inp \<noteq> CLUSTER_UP pf \<Longrightarrow>
   exynos_power_down pf inp s =
     BUG (s\<lparr>edcs_lock := True,
            trace := trace s @ [Mcpm_cpu_going_down (pd_cpu pf inp) (pd_cluster pf inp), Arch_spin_lock]\<rparr>)"
  by (simp add: exynos_power_down_def Let_def in_range pd_in_range_def
      pd_cpu_def pd_cluster_def prim_defs)

lemma power_up_unfold:
  assumes "cpu < EDCS_CPUS_PER_CLUSTER" and "cluster < EDCS_CLUSTERS"
  shows "exynos_power_up pf cpu cluster s =
    (let u = edcs_use_count s cpu cluster + 1;
         pre = [Local_irq_disable, Arch_spin_lock];
         post = [Arch_spin_unlock, Local_irq_enable]
     in if u = 1 then
          Return (s\<lparr>edcs_lock := False,
                    edcs_use_count := (edcs_use_count s)(cpu := (edcs_use_count s cpu)(cluster := u)),
                    core_count := (core_count s)(cluster := core_count s cluster + 1),
                    trace := trace s @ pre @
                      [Writel_relaxed SECONDARY_RESET (REG_CPU_STATE_ADDR cpu)] @
                      power_gate_events pf cpu cluster True s @ post\<rparr>) 0
        else if u \<noteq> 2 then
          BUG (s\<lparr>edcs_lock := True,
                 edcs_use_count := (edcs_use_count s)(cpu := (edcs_use_count s cpu)(cluster := u)),
                 trace := trace s @ pre\<rparr>)
        else
          Return (s\<lparr>edcs_lock := False,
                    edcs_use_count := (edcs_use_count s)(cpu := (edcs_use_count s cpu)(cluster := u)),
                    trace := trace s @ pre @ post\<rparr>) 0)"
  using assms
  by (simp add: exynos_power_up_def Let_def in_range prim_defs power_control_unfold
      power_gate_events_eq)

lemma power_up_out_of_range:
  "\<not> (cpu < EDCS_CPUS_PER_CLUSTER \<and> cluster < EDCS_CLUSTERS) \<Longrightarrow>
     exynos_power_up pf cpu cluster s = BUG s"
  by (auto simp add: exynos_power_up_def not_less)

lemma word_succ_cases:
  "(x :: c_int) + 1 = 1 \<longleftrightarrow> x = 0" "(x :: c_int) + 1 = 2 \<longleftrightarrow> x = 1"
  "(x :: c_int) - 1 = 0 \<longleftrightarrow> x = 1" "(x :: c_int) - 1 = 1 \<longleftrightarrow> x = 2"
  by auto

section \<open>The bookkeeping invariant\<close>

text \<open>
  Counting the active cores of a cluster: setting one use count changes the number of active
  cores of its cluster by one when the core starts or stops being active, and not at all
  otherwise. From this, \<^verbatim>\<open>exynos_power_up\<close>, \<^verbatim>\<open>exynos_power_down\<close> and every sequence of them
  preserve the invariant, and \<^verbatim>\<open>edcs_init\<close> establishes it.
\<close>

lemma core_ids_eq: "core_ids = [0, 1, 2, 3]"
  by (simp add: core_ids_def EDCS_CPUS_PER_CLUSTER_def upt_conv_Cons)

lemma cluster_ids_eq: "cluster_ids = [0, 1]"
  by (simp add: cluster_ids_def EDCS_CLUSTERS_def upt_conv_Cons)

lemma distinct_core_ids: "distinct core_ids"
  by (simp add: core_ids_eq)

lemma set_core_ids: "cpu \<in> set core_ids \<longleftrightarrow> cpu < EDCS_CPUS_PER_CLUSTER"
proof
  assume "cpu \<in> set core_ids"
  then show "cpu < EDCS_CPUS_PER_CLUSTER"
    by (auto simp add: core_ids_eq EDCS_CPUS_PER_CLUSTER_def)
next
  assume "cpu < EDCS_CPUS_PER_CLUSTER"
  then have "unat cpu < 4"
    by (simp add: EDCS_CPUS_PER_CLUSTER_def word_less_nat_alt)
  then have "unat cpu \<in> {0, 1, 2, 3}" by auto
  then have "cpu \<in> {0, 1, 2, 3}" by (auto simp add: word_unat_eq_iff)
  then show "cpu \<in> set core_ids" by (simp add: core_ids_eq)
qed

lemma set_cluster_ids: "cluster \<in> set cluster_ids \<longleftrightarrow> cluster < EDCS_CLUSTERS"
proof
  assume "cluster \<in> set cluster_ids"
  then show "cluster < EDCS_CLUSTERS"
    by (auto simp add: cluster_ids_eq EDCS_CLUSTERS_def)
next
  assume "cluster < EDCS_CLUSTERS"
  then have "unat cluster < 2"
    by (simp add: EDCS_CLUSTERS_def word_less_nat_alt)
  then have "unat cluster \<in> {0, 1}" by auto
  then have "cluster \<in> {0, 1}" by (auto simp add: word_unat_eq_iff)
  then show "cluster \<in> set cluster_ids" by (simp add: cluster_ids_eq)
qed

lemma length_filter_gain:
  assumes "distinct xs" and "x \<in> set xs" and "\<not> P x" and "Q x"
      and "\<And>y. y \<noteq> x \<Longrightarrow> Q y = P y"
  shows "length (filter Q xs) = Suc (length (filter P xs))"
  using assms(1,2)
proof (induction xs)
  case Nil
  then show ?case by simp
next
  case (Cons y ys)
  show ?case
  proof (cases "y = x")
    case True
    with Cons.prems have "x \<notin> set ys" by simp
    then have "\<And>y. y \<in> set ys \<Longrightarrow> Q y = P y"
      using assms(5) by metis
    then have "filter Q ys = filter P ys"
      by (intro filter_cong) simp_all
    with True assms(3,4) show ?thesis by simp
  next
    case False
    with Cons assms(5) show ?thesis by simp
  qed
qed

lemma length_filter_same:
  assumes "\<And>y. y \<in> set xs \<Longrightarrow> Q y = P y"
  shows "length (filter Q xs) = length (filter P xs)"
proof -
  have "filter Q xs = filter P xs"
    using assms by (intro filter_cong) auto
  then show ?thesis by simp
qed

lemma sint_small: "n \<le> 4 \<Longrightarrow> sint (word_of_nat n :: c_int) = int n"
proof -
  assume "n \<le> 4"
  then have "n \<in> {0, 1, 2, 3, 4}" by auto
  then show ?thesis by auto
qed

lemma sint_count_iff:
  assumes "n \<le> 4"
  shows "sint (x :: c_int) = int n \<longleftrightarrow> x = word_of_nat n"
proof
  assume "sint x = int n"
  then have "word_of_int (sint x) = (word_of_int (int n) :: c_int)" by simp
  then show "x = word_of_nat n" by simp
next
  assume "x = word_of_nat n"
  with assms show "sint x = int n" by (simp add: sint_small)
qed

lemma length_active_cores: "length (active_cores s cluster) \<le> 4"
proof -
  have "length (active_cores s cluster) \<le> length core_ids"
    unfolding active_cores_def by (rule length_filter_le)
  then show ?thesis by (simp add: core_ids_eq)
qed

lemma edcs_invariant_iff: "edcs_invariant s \<longleftrightarrow> tables_ok s"
  by (simp add: edcs_invariant_def tables_ok_def list_all_iff Ball_def set_core_ids
      set_cluster_ids sint_count_iff [OF length_active_cores]) blast

lemma tables_ok_first_up:
  assumes ok: "tables_ok s"
      and c: "c < EDCS_CPUS_PER_CLUSTER" and k: "k < EDCS_CLUSTERS"
      and old: "edcs_use_count s c k = 0"
      and use': "edcs_use_count s' = (edcs_use_count s)(c := (edcs_use_count s c)(k := 1))"
      and cnt': "core_count s' = (core_count s)(k := core_count s k + 1)"
  shows "tables_ok s'"
proof -
  have legal: "edcs_use_count s' cpu cluster \<in> {0, 1, 2}"
    if "cpu < EDCS_CPUS_PER_CLUSTER" "cluster < EDCS_CLUSTERS" for cpu cluster
    using ok that by (simp add: tables_ok_def use')
  have gain: "length (active_cores s' k) = Suc (length (active_cores s k))"
    unfolding active_cores_def
  proof (rule length_filter_gain [where x = c])
    show "distinct core_ids" by (rule distinct_core_ids)
    show "c \<in> set core_ids" using c by (simp add: set_core_ids)
    show "\<not> 1 \<le> sint (edcs_use_count s c k)" by (simp add: old)
    show "1 \<le> sint (edcs_use_count s' c k)" by (simp add: use')
    show "(1 \<le> sint (edcs_use_count s' y k)) = (1 \<le> sint (edcs_use_count s y k))"
      if "y \<noteq> c" for y using that by (simp add: use')
  qed
  have same: "length (active_cores s' cluster) = length (active_cores s cluster)"
    if "cluster \<noteq> k" for cluster
    unfolding active_cores_def using that by (intro length_filter_same) (simp add: use')
  have count: "core_count s' cluster = word_of_nat (length (active_cores s' cluster))"
    if "cluster < EDCS_CLUSTERS" for cluster
  proof (cases "cluster = k")
    case True
    with ok k show ?thesis by (simp add: tables_ok_def cnt' gain)
  next
    case False
    with ok that show ?thesis by (simp add: tables_ok_def cnt' same)
  qed
  from legal count show ?thesis by (simp add: tables_ok_def)
qed

lemma tables_ok_last_down:
  assumes ok: "tables_ok s"
      and c: "c < EDCS_CPUS_PER_CLUSTER" and k: "k < EDCS_CLUSTERS"
      and old: "edcs_use_count s c k = 1"
      and use': "edcs_use_count s' = (edcs_use_count s)(c := (edcs_use_count s c)(k := 0))"
      and cnt': "core_count s' = (core_count s)(k := core_count s k - 1)"
  shows "tables_ok s'"
proof -
  have legal: "edcs_use_count s' cpu cluster \<in> {0, 1, 2}"
    if "cpu < EDCS_CPUS_PER_CLUSTER" "cluster < EDCS_CLUSTERS" for cpu cluster
    using ok that by (simp add: tables_ok_def use')
  have loss: "length (active_cores s k) = Suc (length (active_cores s' k))"
    unfolding active_cores_def
  proof (rule length_filter_gain [where x = c])
    show "distinct core_ids" by (rule distinct_core_ids)
    show "c \<in> set core_ids" using c by (simp add: set_core_ids)
    show "\<not> 1 \<le> sint (edcs_use_count s' c k)" by (simp add: use')
    show "1 \<le> sint (edcs_use_count s c k)" by (simp add: old)
    show "(1 \<le> sint (edcs_use_count s y k)) = (1 \<le> sint (edcs_use_count s' y k))"
      if "y \<noteq> c" for y using that by (simp add: use')
  qed
  have same: "length (active_cores s' cluster) = length (active_cores s cluster)"
    if "cluster \<noteq> k" for cluster
    unfolding active_cores_def using that by (intro length_filter_same) (simp add: use')
  have count: "core_count s' cluster = word_of_nat (length (active_cores s' cluster))"
    if "cluster < EDCS_CLUSTERS" for cluster
  proof (cases "cluster = k")
    case True
    with ok k show ?thesis by (simp add: tables_ok_def cnt' loss)
  next
    case False
    with ok that show ?thesis by (simp add: tables_ok_def cnt' same)
  qed
  from legal count show ?thesis by (simp add: tables_ok_def)
qed

lemma tables_ok_still_up:
  assumes ok: "tables_ok s"
      and c: "c < EDCS_CPUS_PER_CLUSTER" and k: "k < EDCS_CLUSTERS"
      and old: "edcs_use_count s c k \<in> {1, 2}" and new: "v \<in> {1, 2}"
      and use': "edcs_use_count s' = (edcs_use_count s)(c := (edcs_use_count s c)(k := v))"
      and cnt': "core_count s' = core_count s"
  shows "tables_ok s'"
proof -
  have legal: "edcs_use_count s' cpu cluster \<in> {0, 1, 2}"
    if "cpu < EDCS_CPUS_PER_CLUSTER" "cluster < EDCS_CLUSTERS" for cpu cluster
    using ok that new by (auto simp add: tables_ok_def use')
  have same: "length (active_cores s' cluster) = length (active_cores s cluster)" for cluster
    unfolding active_cores_def using old new by (intro length_filter_same) (auto simp add: use')
  from ok legal show ?thesis by (simp add: tables_ok_def cnt' same)
qed

lemma power_up_preserves:
  assumes ok: "tables_ok s" and ret: "exynos_power_up pf cpu cluster s = Return s' r"
  shows "tables_ok s' \<and> \<not> edcs_lock s'"
proof -
  have rng: "cpu < EDCS_CPUS_PER_CLUSTER" "cluster < EDCS_CLUSTERS"
    using ret power_up_out_of_range [of cpu cluster pf s] by auto
  consider (first) "edcs_use_count s cpu cluster = 0"
    | (race) "edcs_use_count s cpu cluster = 1"
    | (other) "edcs_use_count s cpu cluster + 1 \<noteq> 1" "edcs_use_count s cpu cluster + 1 \<noteq> 2"
    by (auto simp add: word_succ_cases)
  then show ?thesis
  proof cases
    case first
    with ret rng have s': "edcs_use_count s' = (edcs_use_count s)(cpu := (edcs_use_count s cpu)(cluster := 1))"
      "core_count s' = (core_count s)(cluster := core_count s cluster + 1)" "\<not> edcs_lock s'"
      by (auto simp add: power_up_unfold Let_def)
    with tables_ok_first_up [OF ok rng first s'(1,2)] show ?thesis by simp
  next
    case race
    with ret rng have s': "edcs_use_count s' = (edcs_use_count s)(cpu := (edcs_use_count s cpu)(cluster := 2))"
      "core_count s' = core_count s" "\<not> edcs_lock s'"
      by (auto simp add: power_up_unfold Let_def)
    have "tables_ok s'"
      by (rule tables_ok_still_up [OF ok rng _ _ s'(1,2)]) (simp_all add: race)
    with s' show ?thesis by simp
  next
    case other
    with ret rng show ?thesis by (simp add: power_up_unfold Let_def)
  qed
qed

lemma power_down_preserves:
  assumes ok: "tables_ok s" and ret: "exynos_power_down pf inp s = Return s' r"
  shows "tables_ok s' \<and> \<not> edcs_lock s'"
proof -
  have rng: "pd_in_range pf inp"
    using ret power_down_out_of_range [of pf inp s] by auto
  then have rng': "pd_cpu pf inp < EDCS_CPUS_PER_CLUSTER" "pd_cluster pf inp < EDCS_CLUSTERS"
    by (simp_all add: pd_in_range_def)
  have up: "pd_cluster_state inp = CLUSTER_UP pf"
    using ret rng power_down_cluster_not_up [of pf inp s] by auto
  let ?u = "edcs_use_count s (pd_cpu pf inp) (pd_cluster pf inp)"
  consider (last) "?u = 1" | (race) "?u = 2" | (other) "?u - 1 \<noteq> 0" "?u - 1 \<noteq> 1"
    by (auto simp add: word_succ_cases)
  then show ?thesis
  proof cases
    case last
    with ret have s': "edcs_use_count s' = (edcs_use_count s)(pd_cpu pf inp :=
          (edcs_use_count s (pd_cpu pf inp))(pd_cluster pf inp := 0))"
      "core_count s' = (core_count s)(pd_cluster pf inp := core_count s (pd_cluster pf inp) - 1)"
      "\<not> edcs_lock s'"
      by (auto simp add: power_down_unfold [OF rng up] Let_def)
    with tables_ok_last_down [OF ok rng' last s'(1,2)] show ?thesis by simp
  next
    case race
    with ret have s': "edcs_use_count s' = (edcs_use_count s)(pd_cpu pf inp :=
          (edcs_use_count s (pd_cpu pf inp))(pd_cluster pf inp := 1))"
      "core_count s' = core_count s" "\<not> edcs_lock s'"
      by (auto simp add: power_down_unfold [OF rng up] Let_def)
    have "tables_ok s'"
      by (rule tables_ok_still_up [OF ok rng' _ _ s'(1,2)]) (simp_all add: race)
    with s' show ?thesis by simp
  next
    case other
    with ret show ?thesis by (simp add: power_down_unfold [OF rng up] Let_def)
  qed
qed

lemma active_cores_static: "active_cores (static_init m) cluster = []"
  by (simp add: active_cores_def static_init_def)

lemma tables_ok_static: "tables_ok (static_init m)"
  by (simp add: tables_ok_def active_cores_static) (simp add: static_init_def)

lemma tables_ok_cong:
  "tables_ok s \<Longrightarrow> edcs_use_count s' = edcs_use_count s \<Longrightarrow>
     core_count s' = core_count s \<Longrightarrow> tables_ok s'"
  by (simp add: tables_ok_def active_cores_def)

lemma data_init_establishes:
  assumes ok: "tables_ok s" and zero: "\<forall>cpu cluster. edcs_use_count s cpu cluster = 0"
      and ret: "edcs_data_init pf mpidr s = Return s' r"
  shows "tables_ok s' \<and> edcs_lock s' = edcs_lock s"
proof -
  let ?cpu = "MPIDR_AFFINITY_LEVEL pf mpidr 0" and ?cluster = "MPIDR_AFFINITY_LEVEL pf mpidr 1"
  have rng: "?cpu < EDCS_CPUS_PER_CLUSTER" "?cluster < EDCS_CLUSTERS"
    using ret by (auto simp add: edcs_data_init_def Let_def not_le split: if_splits)
  with ret have s': "edcs_use_count s' = (edcs_use_count s)(?cpu := (edcs_use_count s ?cpu)(?cluster := 1))"
      "core_count s' = (core_count s)(?cluster := core_count s ?cluster + 1)"
      "edcs_lock s' = edcs_lock s"
    by (auto simp add: edcs_data_init_def Let_def in_range prim_defs)
  from zero have "edcs_use_count s ?cpu ?cluster = 0" by simp
  with tables_ok_first_up [OF ok rng _ s'(1,2)] s'(3) show ?thesis by simp
qed

lemma edcs_init_unfold:
  "in_node_found ini \<Longrightarrow> in_cci_probed ini \<Longrightarrow>
   edcs_init pf ini s =
      (case edcs_data_init pf (in_mpidr ini)
              (emit (Writel_relaxed (in_entry_point ini) REG_ENTRY_ADDR) s) of
         BUG h \<Rightarrow> BUG h
       | Return s2 _ \<Rightarrow>
           if in_register_ret ini = 0
           then Return (emit Pr_info (emit Mcpm_sync_init
                  (emit Mcpm_platform_register (emit Mcpm_smp_set_ops s2)))) 0
           else Return (emit Mcpm_platform_register (emit Mcpm_smp_set_ops s2)) (in_register_ret ini))"
  by (simp add: edcs_init_def Let_def split: outcome.split)

lemma edcs_init_establishes:
  assumes "edcs_init pf ini (static_init m) = Return s0 r"
  shows "tables_ok s0 \<and> \<not> edcs_lock s0"
proof (cases "in_node_found ini \<and> in_cci_probed ini")
  case False
  with assms have "s0 = static_init m"
    by (auto simp add: edcs_init_def split: if_splits)
  then show ?thesis by (simp add: tables_ok_static) (simp add: static_init_def)
next
  case True
  let ?s1 = "emit (Writel_relaxed (in_entry_point ini) REG_ENTRY_ADDR) (static_init m)"
  have ok1: "tables_ok ?s1"
    by (rule tables_ok_cong [OF tables_ok_static [of m]]) (simp_all add: emit_def)
  have zero: "\<forall>cpu cluster. edcs_use_count ?s1 cpu cluster = 0"
    and lock1: "\<not> edcs_lock ?s1"
    by (simp_all add: emit_def static_init_def)
  note unfold = edcs_init_unfold [of ini pf "static_init m"]
  obtain s2 u where init: "edcs_data_init pf (in_mpidr ini) ?s1 = Return s2 u"
    using assms True by (cases "edcs_data_init pf (in_mpidr ini) ?s1") (simp_all add: unfold)
  have "s0 = emit Pr_info (emit Mcpm_sync_init (emit Mcpm_platform_register (emit Mcpm_smp_set_ops s2)))
      \<or> s0 = emit Mcpm_platform_register (emit Mcpm_smp_set_ops s2)"
    using assms True by (simp add: unfold init split: if_splits)
  then have s0: "edcs_use_count s0 = edcs_use_count s2" "core_count s0 = core_count s2"
        "edcs_lock s0 = edcs_lock s2"
    by (auto simp add: emit_def)
  from data_init_establishes [OF ok1 zero init] lock1 s0 show ?thesis
    by (auto intro: tables_ok_cong)
qed

lemma run_preserves:
  "tables_ok s \<and> \<not> edcs_lock s \<Longrightarrow> run pf reqs s = Return s' u \<Longrightarrow>
     tables_ok s' \<and> \<not> edcs_lock s'"
proof (induction reqs arbitrary: s)
  case Nil
  then show ?case by simp
next
  case (Cons q qs)
  show ?case
  proof (cases q)
    case (Power_up cpu cluster)
    with Cons.prems obtain t r where
      step: "exynos_power_up pf cpu cluster s = Return t r" and rest: "run pf qs t = Return s' u"
      by (auto split: outcome.splits)
    from power_up_preserves [OF _ step] Cons.prems have "tables_ok t \<and> \<not> edcs_lock t" by simp
    from Cons.IH [OF this rest] show ?thesis .
  next
    case (Power_down inp)
    with Cons.prems obtain t r where
      step: "exynos_power_down pf inp s = Return t r" and rest: "run pf qs t = Return s' u"
      by (auto split: outcome.splits)
    from power_down_preserves [OF _ step] Cons.prems have "tables_ok t \<and> \<not> edcs_lock t" by simp
    from Cons.IH [OF this rest] show ?thesis .
  qed
qed

lemma run_take_returns:
  "returned (run pf reqs s) \<Longrightarrow> returned (run pf (take n reqs) s)"
proof (induction reqs arbitrary: s n)
  case Nil
  then show ?case by simp
next
  case (Cons q qs)
  show ?case
  proof (cases n)
    case 0
    then show ?thesis by simp
  next
    case (Suc k)
    with Cons show ?thesis
      by (cases q) (auto split: outcome.splits)
  qed
qed

section \<open>The events of a power-down\<close>

text \<open>A power-down that returns was in range, saw the cluster up and decremented to 0 or 1;
  its events are the two before the bookkeeping followed by those of the tail.\<close>

lemma power_down_returned:
  assumes "returned (exynos_power_down pf inp s)"
  shows "pd_in_range pf inp" and "pd_cluster_state inp = CLUSTER_UP pf"
    and "edcs_use_count s (pd_cpu pf inp) (pd_cluster pf inp) - 1 = 0 \<or>
         edcs_use_count s (pd_cpu pf inp) (pd_cluster pf inp) - 1 = 1"
proof -
  show rng: "pd_in_range pf inp"
    using assms power_down_out_of_range [of pf inp s] by (cases "pd_in_range pf inp") simp_all
  show up: "pd_cluster_state inp = CLUSTER_UP pf"
    using assms rng power_down_cluster_not_up [of pf inp s]
    by (cases "pd_cluster_state inp = CLUSTER_UP pf") simp_all
  show "edcs_use_count s (pd_cpu pf inp) (pd_cluster pf inp) - 1 = 0 \<or>
         edcs_use_count s (pd_cpu pf inp) (pd_cluster pf inp) - 1 = 1"
    using assms by (auto simp add: power_down_unfold [OF rng up] Let_def split: if_splits)
qed

lemma power_down_emitted:
  assumes "returned (exynos_power_down pf inp s)"
  shows "emitted s (final (exynos_power_down pf inp s)) =
     [Mcpm_cpu_going_down (pd_cpu pf inp) (pd_cluster pf inp), Arch_spin_lock] @
     (if edcs_use_count s (pd_cpu pf inp) (pd_cluster pf inp) - 1 = 0
      then tail_events pf inp (pd_cpu pf inp) (pd_cluster pf inp)
             (core_count s (pd_cluster pf inp) - 1 = 0) False s
      else tail_events pf inp (pd_cpu pf inp) (pd_cluster pf inp) False True s)"
  using power_down_returned [OF assms]
  by (auto simp add: power_down_unfold Let_def emitted_def)

lemma power_gate_events_plain:
  "\<not> list_ex is_cluster_event (power_gate_events pf cpu cluster enable s)"
  "\<not> list_ex is_cache_maintenance (power_gate_events pf cpu cluster enable s)"
  "Asm_flush_dcache_louis \<notin> set (power_gate_events pf cpu cluster enable s)"
  "cache_maintenance_unlocked held (power_gate_events pf cpu cluster enable s @ es) =
     cache_maintenance_unlocked held es"
  by (simp_all add: power_gate_events_eq is_cluster_event_def is_cache_maintenance_def)

lemma bus_writes_simps:
  "bus_writes [] = 0"
  "bus_writes (Writel_relaxed v r # es) = Suc (bus_writes es)"
  "bus_writes (Readl_relaxed r # es) = bus_writes es"
  "bus_writes (Wmb # es) = bus_writes es"
  "bus_writes (xs @ ys) = bus_writes xs + bus_writes ys"
  by (simp_all add: bus_writes_def)

lemma emitted_power_control:
  "emitted s (exynos_core_power_control pf cpu cluster enable
      ((exynos_core_power_control pf cpu cluster enable s)\<lparr>mmio := m'\<rparr>)) =
   power_gate_events pf cpu cluster enable s @
   power_gate_events pf cpu cluster enable
      ((exynos_core_power_control pf cpu cluster enable s)\<lparr>mmio := m'\<rparr>)"
  by (simp add: emitted_def power_control_unfold [of pf cpu cluster enable "_\<lparr>mmio := m'\<rparr>"])
     (simp add: power_control_unfold)

section \<open>Evaluation at concrete inputs\<close>

lemmas eval_defs = exynos5410_def static_init_def boot_mmio_def boot_inputs_def pd_of_def
  word_le_nat_alt edcs_init_def edcs_data_init_def exynos_power_up_def exynos_power_down_def
  exynos_power_down_tail_def exynos_core_power_control_def prim_defs Let_def
  EDCS_CPUS_PER_CLUSTER_def EDCS_CLUSTERS_def SECONDARY_RESET_def

lemmas eval_pd = eval_defs boot_state_def raced_state_def emitted_def pd_cpu_def pd_cluster_def
  pd_in_range_def

section \<open>The claims\<close>

text \<open>
  C1. For every sequence of \<^verbatim>\<open>power_up\<close> and \<^verbatim>\<open>power_down\<close> calls that starts from the
  initialised state and in which no call halts, at every point between two calls (where the
  lock is not held) each use count of an in-range core is 0, 1 or 2 and the core count of
  each cluster is the number of its cores whose use count is at least 1.
\<close>

theorem use_count_invariant:
  assumes "edcs_init pf ini (static_init m) = Return s0 r"
      and "run pf reqs s0 = Return s ()"
  shows "edcs_invariant s \<and> \<not> edcs_lock s \<and>
         (\<forall>n. returned (run pf (take n reqs) s0) \<and>
              edcs_invariant (final (run pf (take n reqs) s0)) \<and>
              \<not> edcs_lock (final (run pf (take n reqs) s0)))"
proof -
  note start = edcs_init_establishes [OF assms(1)]
  have "returned (run pf (take n reqs) s0) \<and>
        edcs_invariant (final (run pf (take n reqs) s0)) \<and>
        \<not> edcs_lock (final (run pf (take n reqs) s0))" for n
  proof -
    have ret: "returned (run pf (take n reqs) s0)"
      by (rule run_take_returns) (simp add: assms(2))
    then have "run pf (take n reqs) s0 = Return (final (run pf (take n reqs) s0)) ()"
      by (cases "run pf (take n reqs) s0") simp_all
    from run_preserves [OF start this] ret show ?thesis
      by (simp add: edcs_invariant_iff)
  qed
  moreover from run_preserves [OF start assms(2)]
  have "edcs_invariant s \<and> \<not> edcs_lock s" by (simp add: edcs_invariant_iff)
  ultimately show ?thesis by blast
qed

theorem use_count_invariant_witness:
  "edcs_init exynos5410 boot_inputs (static_init boot_mmio) = Return boot_state 0 \<and>
   returned (run exynos5410 demo_requests boot_state) \<and>
   edcs_invariant (final (run exynos5410 demo_requests boot_state)) \<and>
   \<not> edcs_lock (final (run exynos5410 demo_requests boot_state)) \<and>
   map (\<lambda>cluster. map (\<lambda>cpu.
          edcs_use_count (final (run exynos5410 demo_requests boot_state)) cpu cluster)
        [0, 1, 2, 3]) [0, 1] = [[0, 0, 0, 1], [0, 0, 0, 0]] \<and>
   map (core_count (final (run exynos5410 demo_requests boot_state))) [0, 1] = [1, 0]"
proof -
  have a: "edcs_init exynos5410 boot_inputs (static_init boot_mmio) = Return boot_state 0"
    by (simp add: eval_defs boot_state_def)
  have b: "run exynos5410 demo_requests boot_state =
      Return (final (run exynos5410 demo_requests boot_state)) ()"
    by (simp add: eval_defs demo_requests_def boot_state_def)
  have c: "returned (run exynos5410 demo_requests boot_state)"
    by (simp add: eval_defs demo_requests_def boot_state_def)
  have d: "map (\<lambda>cluster. map (\<lambda>cpu.
          edcs_use_count (final (run exynos5410 demo_requests boot_state)) cpu cluster)
        [0, 1, 2, 3]) [0, 1] = [[0, 0, 0, 1], [0, 0, 0, 0]]"
    "map (core_count (final (run exynos5410 demo_requests boot_state))) [0, 1] = [1, 0]"
    by (simp_all add: eval_defs demo_requests_def boot_state_def)
  from use_count_invariant [OF a b] a c d show ?thesis by blast
qed

text \<open>
  C2. When \<^verbatim>\<open>exynos_power_down\<close> returns, the whole-cluster teardown sequence (flush of the
  whole cache with coherency disable, then \<^verbatim>\<open>cci_disable_port_by_cpu\<close>, then the
  \<^verbatim>\<open>CLUSTER_DOWN\<close> notification) is executed if and only if this core's decrement took the
  cluster's core count to 0 and \<^verbatim>\<open>__mcpm_outbound_enter_critical\<close> succeeded. In every other
  case the local flush is performed and no whole-cluster event occurs, in particular no
  cluster-down notification.
\<close>

theorem cluster_teardown_iff:
  assumes "returned (exynos_power_down pf inp s)"
  shows "(teardown_agent pf inp s \<longrightarrow>
            (\<exists>pre post. emitted s (final (exynos_power_down pf inp s)) =
                pre @ cluster_teardown_sequence pf inp @ post) \<and>
            Asm_flush_dcache_louis \<notin> set (emitted s (final (exynos_power_down pf inp s)))) \<and>
         (\<not> teardown_agent pf inp s \<longrightarrow>
            Asm_flush_dcache_louis \<in> set (emitted s (final (exynos_power_down pf inp s))) \<and>
            \<not> list_ex is_cluster_event (emitted s (final (exynos_power_down pf inp s))))"
proof (cases "teardown_agent pf inp s")
  case True
  let ?cpu = "pd_cpu pf inp" and ?cluster = "pd_cluster pf inp"
  let ?pre = "[Mcpm_cpu_going_down ?cpu ?cluster, Arch_spin_lock, Gic_cpu_if_down,
      Mcpm_outbound_enter_critical ?cpu ?cluster, Arch_spin_unlock] @
      (if pd_part_number inp = ARM_CPU_PART_CORTEX_A15 pf then [Asm_disable_l2_prefetch] else [])"
  let ?post = "[Mcpm_cpu_down ?cpu ?cluster] @ power_gate_events pf ?cpu ?cluster False s @ [Wfi]"
  from True have em: "emitted s (final (exynos_power_down pf inp s)) =
      ?pre @ cluster_teardown_sequence pf inp @ ?post"
    by (simp add: power_down_emitted [OF assms] teardown_agent_def tail_events_def
        cluster_teardown_sequence_def)
  then have "\<exists>pre post. emitted s (final (exynos_power_down pf inp s)) =
      pre @ cluster_teardown_sequence pf inp @ post"
    by blast
  moreover have "Asm_flush_dcache_louis \<notin> set (emitted s (final (exynos_power_down pf inp s)))"
    unfolding em by (simp add: cluster_teardown_sequence_def power_gate_events_plain)
  ultimately show ?thesis using True by simp
next
  case False
  then have "Asm_flush_dcache_louis \<in> set (emitted s (final (exynos_power_down pf inp s))) \<and>
      \<not> list_ex is_cluster_event (emitted s (final (exynos_power_down pf inp s)))"
    by (auto simp add: power_down_emitted [OF assms] teardown_agent_def tail_events_def
        power_gate_events_plain is_cluster_event_def)
  with False show ?thesis by simp
qed

theorem cluster_teardown_iff_witness:
  "returned (exynos_power_down exynos5410 (pd_of 0 True) boot_state) \<and>
   teardown_agent exynos5410 (pd_of 0 True) boot_state \<and>
   emitted boot_state (final (exynos_power_down exynos5410 (pd_of 0 True) boot_state)) =
     [Mcpm_cpu_going_down 0 0, Arch_spin_lock, Gic_cpu_if_down,
      Mcpm_outbound_enter_critical 0 0, Arch_spin_unlock, Asm_disable_l2_prefetch] @
     cluster_teardown_sequence exynos5410 (pd_of 0 True) @
     [Mcpm_cpu_down 0 0, Readl_relaxed (EDCS_CORE_STATUS 0), Wmb,
      Writel_relaxed 0 (EDCS_CORE_CONFIGURATION 0), Wfi] \<and>
   returned (exynos_power_down exynos5410 (pd_of 0 False) boot_state) \<and>
   \<not> teardown_agent exynos5410 (pd_of 0 False) boot_state \<and>
   emitted boot_state (final (exynos_power_down exynos5410 (pd_of 0 False) boot_state)) =
     [Mcpm_cpu_going_down 0 0, Arch_spin_lock, Gic_cpu_if_down,
      Mcpm_outbound_enter_critical 0 0, Arch_spin_unlock, Asm_flush_dcache_louis,
      Mcpm_cpu_down 0 0, Readl_relaxed (EDCS_CORE_STATUS 0), Wmb,
      Writel_relaxed 0 (EDCS_CORE_CONFIGURATION 0), Wfi]"
proof -
  have a: "returned (exynos_power_down exynos5410 (pd_of 0 True) boot_state)"
    and b: "returned (exynos_power_down exynos5410 (pd_of 0 False) boot_state)"
    by (simp_all add: eval_pd)
  from cluster_teardown_iff [OF a] cluster_teardown_iff [OF b] a b show ?thesis
    by (simp add: eval_pd teardown_agent_def cluster_teardown_sequence_def)
qed

text \<open>
  C3. If the decrement in \<^verbatim>\<open>exynos_power_down\<close> yields use count 1 (a power-up went ahead),
  the call does not mask the interrupt-controller interface, performs the local cache
  flush, issues the core-down notification, neither calls the power gate nor executes
  \<^verbatim>\<open>wfi\<close>, and returns.
\<close>

theorem power_down_skip_suspend:
  assumes "pd_in_range pf inp" and "pd_cluster_state inp = CLUSTER_UP pf"
      and "edcs_use_count s (pd_cpu pf inp) (pd_cluster pf inp) - 1 = 1"
  shows "exynos_power_down pf inp s =
           Return (s\<lparr>edcs_lock := False,
                     edcs_use_count := (edcs_use_count s)(pd_cpu pf inp :=
                        (edcs_use_count s (pd_cpu pf inp))(pd_cluster pf inp := 1)),
                     trace := trace s @
                       [Mcpm_cpu_going_down (pd_cpu pf inp) (pd_cluster pf inp), Arch_spin_lock,
                        Arch_spin_unlock, Asm_flush_dcache_louis,
                        Mcpm_cpu_down (pd_cpu pf inp) (pd_cluster pf inp)]\<rparr>) ()"
  using assms(3) by (simp add: power_down_unfold [OF assms(1,2)] Let_def tail_events_def)

theorem power_down_skip_suspend_witness:
  "pd_in_range exynos5410 (pd_of 0 True) \<and>
   pd_cluster_state (pd_of 0 True) = CLUSTER_UP exynos5410 \<and>
   edcs_use_count raced_state 0 0 = 2 \<and>
   returned (exynos_power_down exynos5410 (pd_of 0 True) raced_state) \<and>
   emitted raced_state (final (exynos_power_down exynos5410 (pd_of 0 True) raced_state)) =
     [Mcpm_cpu_going_down 0 0, Arch_spin_lock, Arch_spin_unlock, Asm_flush_dcache_louis,
      Mcpm_cpu_down 0 0]"
proof -
  have a: "pd_in_range exynos5410 (pd_of 0 True)"
    and b: "pd_cluster_state (pd_of 0 True) = CLUSTER_UP exynos5410"
    and c: "edcs_use_count raced_state (pd_cpu exynos5410 (pd_of 0 True))
              (pd_cluster exynos5410 (pd_of 0 True)) - 1 = 1"
    by (simp_all add: eval_pd)
  from power_down_skip_suspend [OF a b c] a b show ?thesis
    by (simp add: eval_pd)
qed

text \<open>
  C4. For in-range \<open>cpu\<close> and \<open>cluster\<close>, \<^verbatim>\<open>exynos_power_up\<close> adds one to the use count.
  If the new value is 1 it adds one to the cluster's core count, writes
  \<^verbatim>\<open>SECONDARY_RESET\<close> to the core's boot flag and calls the power gate with
  \<^verbatim>\<open>enable = true\<close>; if the new value is 2 it leaves the core count alone and touches no
  hardware. In both cases it releases the lock, enables interrupts and returns 0.
\<close>

theorem power_up_effect:
  assumes "cpu < EDCS_CPUS_PER_CLUSTER" and "cluster < EDCS_CLUSTERS"
  shows "edcs_use_count (final (exynos_power_up pf cpu cluster s)) cpu cluster =
           edcs_use_count s cpu cluster + 1 \<and>
         (edcs_use_count s cpu cluster + 1 = 1 \<longrightarrow>
            exynos_power_up pf cpu cluster s =
              Return (s\<lparr>edcs_lock := False,
                        edcs_use_count := (edcs_use_count s)(cpu := (edcs_use_count s cpu)(cluster := 1)),
                        core_count := (core_count s)(cluster := core_count s cluster + 1),
                        trace := trace s @ [Local_irq_disable, Arch_spin_lock,
                           Writel_relaxed SECONDARY_RESET (REG_CPU_STATE_ADDR cpu)] @
                           power_gate_events pf cpu cluster True s @
                           [Arch_spin_unlock, Local_irq_enable]\<rparr>) 0) \<and>
         (edcs_use_count s cpu cluster + 1 = 2 \<longrightarrow>
            exynos_power_up pf cpu cluster s =
              Return (s\<lparr>edcs_lock := False,
                        edcs_use_count := (edcs_use_count s)(cpu := (edcs_use_count s cpu)(cluster := 2)),
                        trace := trace s @ [Local_irq_disable, Arch_spin_lock,
                           Arch_spin_unlock, Local_irq_enable]\<rparr>) 0)"
  by (simp add: power_up_unfold [OF assms] Let_def)

theorem power_up_effect_witness:
  "(0 :: u32) < EDCS_CPUS_PER_CLUSTER \<and> (0 :: u32) < EDCS_CLUSTERS \<and>
   (1 :: u32) < EDCS_CPUS_PER_CLUSTER \<and>
   edcs_use_count boot_state 1 0 + 1 = 1 \<and>
   returned (exynos_power_up exynos5410 1 0 boot_state) \<and>
   retval (exynos_power_up exynos5410 1 0 boot_state) = Some 0 \<and>
   core_count (final (exynos_power_up exynos5410 1 0 boot_state)) 0 = 2 \<and>
   emitted boot_state (final (exynos_power_up exynos5410 1 0 boot_state)) =
     [Local_irq_disable, Arch_spin_lock, Writel_relaxed 2 (REG_CPU_STATE_ADDR 1),
      Readl_relaxed (EDCS_CORE_STATUS 1), Wmb, Writel_relaxed 3 (EDCS_CORE_CONFIGURATION 1),
      Arch_spin_unlock, Local_irq_enable] \<and>
   edcs_use_count boot_state 0 0 + 1 = 2 \<and>
   returned (exynos_power_up exynos5410 0 0 boot_state) \<and>
   retval (exynos_power_up exynos5410 0 0 boot_state) = Some 0 \<and>
   core_count (final (exynos_power_up exynos5410 0 0 boot_state)) 0 = 1 \<and>
   emitted boot_state (final (exynos_power_up exynos5410 0 0 boot_state)) =
     [Local_irq_disable, Arch_spin_lock, Arch_spin_unlock, Local_irq_enable]"
proof -
  have r: "(0 :: u32) < EDCS_CPUS_PER_CLUSTER" "(0 :: u32) < EDCS_CLUSTERS"
    "(1 :: u32) < EDCS_CPUS_PER_CLUSTER"
    by (simp_all add: EDCS_CPUS_PER_CLUSTER_def EDCS_CLUSTERS_def)
  from power_up_effect [OF r(3) r(2), where s = boot_state and pf = exynos5410]
    power_up_effect [OF r(1) r(2), where s = boot_state and pf = exynos5410] r
  show ?thesis
    by (simp add: eval_defs boot_state_def emitted_def power_gate_events_eq)
qed

text \<open>
  C5. \<^verbatim>\<open>exynos_power_down\<close> for a core whose use count is 0 halts: nothing after the
  acquisition of the lock is executed, and when the cluster state check passes the
  decremented use count is -1. With the cluster state \<^verbatim>\<open>CLUSTER_UP\<close>, the call halts exactly
  when the decremented value is neither 0 nor 1.
\<close>

theorem power_down_fatal:
  assumes "pd_in_range pf inp"
  shows "(edcs_use_count s (pd_cpu pf inp) (pd_cluster pf inp) = 0 \<longrightarrow>
            \<not> returned (exynos_power_down pf inp s) \<and>
            emitted s (final (exynos_power_down pf inp s)) =
              [Mcpm_cpu_going_down (pd_cpu pf inp) (pd_cluster pf inp), Arch_spin_lock] \<and>
            (pd_cluster_state inp = CLUSTER_UP pf \<longrightarrow>
               sint (edcs_use_count (final (exynos_power_down pf inp s))
                      (pd_cpu pf inp) (pd_cluster pf inp)) = - 1)) \<and>
         (pd_cluster_state inp = CLUSTER_UP pf \<longrightarrow>
            (\<not> returned (exynos_power_down pf inp s)) =
            (edcs_use_count s (pd_cpu pf inp) (pd_cluster pf inp) - 1 \<noteq> 0 \<and>
             edcs_use_count s (pd_cpu pf inp) (pd_cluster pf inp) - 1 \<noteq> 1))"
proof (cases "pd_cluster_state inp = CLUSTER_UP pf")
  case True
  show ?thesis
    by (simp add: power_down_unfold [OF assms True] Let_def emitted_def True)
next
  case False
  show ?thesis
    by (simp add: power_down_cluster_not_up [OF assms False] emitted_def False)
qed

theorem power_down_fatal_witness:
  "pd_in_range exynos5410 (pd_of 1 True) \<and>
   edcs_use_count boot_state 1 0 = 0 \<and>
   pd_cluster_state (pd_of 1 True) = CLUSTER_UP exynos5410 \<and>
   \<not> returned (exynos_power_down exynos5410 (pd_of 1 True) boot_state) \<and>
   sint (edcs_use_count (final (exynos_power_down exynos5410 (pd_of 1 True) boot_state)) 1 0) = - 1 \<and>
   emitted boot_state (final (exynos_power_down exynos5410 (pd_of 1 True) boot_state)) =
     [Mcpm_cpu_going_down 1 0, Arch_spin_lock]"
proof -
  have a: "pd_in_range exynos5410 (pd_of 1 True)"
    by (simp add: eval_pd)
  from power_down_fatal [OF a, where s = boot_state] a show ?thesis
    by (simp add: eval_pd)
qed

text \<open>
  C6. In \<^verbatim>\<open>exynos_power_down\<close> the lock is never held while cache maintenance runs: on the
  whole-cluster path and on the local path, each cache maintenance block is executed after
  \<^verbatim>\<open>arch_spin_unlock\<close>, with no acquisition of the lock in between.
\<close>

theorem lock_released_before_cache_maintenance:
  assumes "returned (exynos_power_down pf inp s)"
  shows "cache_maintenance_unlocked True (emitted s (final (exynos_power_down pf inp s))) \<and>
         list_ex is_cache_maintenance (emitted s (final (exynos_power_down pf inp s)))"
  by (simp add: power_down_emitted [OF assms] tail_events_def is_cache_maintenance_def
      power_gate_events_plain)

theorem lock_released_before_cache_maintenance_witness:
  "returned (exynos_power_down exynos5410 (pd_of 0 True) boot_state) \<and>
   returned (exynos_power_down exynos5410 (pd_of 0 False) boot_state) \<and>
   cache_maintenance_unlocked True
     [Mcpm_cpu_going_down 0 0, Arch_spin_lock, Gic_cpu_if_down,
      Mcpm_outbound_enter_critical 0 0, Arch_spin_unlock, Asm_disable_l2_prefetch,
      Asm_flush_dcache_all, Cci_disable_port_by_cpu 0, Mcpm_outbound_leave_critical 0 0x11,
      Mcpm_cpu_down 0 0, Readl_relaxed (EDCS_CORE_STATUS 0), Wmb,
      Writel_relaxed 0 (EDCS_CORE_CONFIGURATION 0), Wfi] \<and>
   cache_maintenance_unlocked True
     [Mcpm_cpu_going_down 0 0, Arch_spin_lock, Gic_cpu_if_down,
      Mcpm_outbound_enter_critical 0 0, Arch_spin_unlock, Asm_flush_dcache_louis,
      Mcpm_cpu_down 0 0, Readl_relaxed (EDCS_CORE_STATUS 0), Wmb,
      Writel_relaxed 0 (EDCS_CORE_CONFIGURATION 0), Wfi] \<and>
   \<not> cache_maintenance_unlocked True [Arch_spin_lock, Asm_flush_dcache_louis, Arch_spin_unlock]"
proof -
  have a: "returned (exynos_power_down exynos5410 (pd_of 0 True) boot_state)"
    and b: "returned (exynos_power_down exynos5410 (pd_of 0 False) boot_state)"
    by (simp_all add: eval_pd)
  from lock_released_before_cache_maintenance [OF a]
    lock_released_before_cache_maintenance [OF b] a b
  show ?thesis
    by (simp add: eval_pd is_cache_maintenance_def)
qed

text \<open>
  C7. In \<^verbatim>\<open>exynos_power_down\<close>, right after the lock is acquired and before the use count is
  decremented, the cluster state reported by the coordinator is compared with
  \<^verbatim>\<open>CLUSTER_UP\<close>; any other state halts the call there, with the tables untouched. When the
  state is \<^verbatim>\<open>CLUSTER_UP\<close> the decrement takes place.
\<close>

theorem cluster_state_asserted:
  assumes "pd_in_range pf inp"
  shows "(pd_cluster_state inp \<noteq> CLUSTER_UP pf \<longrightarrow>
            exynos_power_down pf inp s =
              BUG (s\<lparr>edcs_lock := True,
                     trace := trace s @
                       [Mcpm_cpu_going_down (pd_cpu pf inp) (pd_cluster pf inp), Arch_spin_lock]\<rparr>)) \<and>
         (pd_cluster_state inp = CLUSTER_UP pf \<longrightarrow>
            edcs_use_count (final (exynos_power_down pf inp s)) (pd_cpu pf inp) (pd_cluster pf inp) =
              edcs_use_count s (pd_cpu pf inp) (pd_cluster pf inp) - 1)"
proof (cases "pd_cluster_state inp = CLUSTER_UP pf")
  case True
  then show ?thesis
    by (simp add: power_down_unfold [OF assms True] Let_def)
next
  case False
  then show ?thesis
    by (simp add: power_down_cluster_not_up [OF assms False])
qed

theorem cluster_state_asserted_witness:
  "pd_in_range exynos5410 pd_cluster_down \<and>
   pd_cluster_state pd_cluster_down \<noteq> CLUSTER_UP exynos5410 \<and>
   \<not> returned (exynos_power_down exynos5410 pd_cluster_down boot_state) \<and>
   edcs_use_count (final (exynos_power_down exynos5410 pd_cluster_down boot_state)) 0 0 = 1 \<and>
   emitted boot_state (final (exynos_power_down exynos5410 pd_cluster_down boot_state)) =
     [Mcpm_cpu_going_down 0 0, Arch_spin_lock] \<and>
   pd_in_range exynos5410 (pd_of 0 True) \<and>
   pd_cluster_state (pd_of 0 True) = CLUSTER_UP exynos5410 \<and>
   edcs_use_count (final (exynos_power_down exynos5410 (pd_of 0 True) boot_state)) 0 0 = 0"
proof -
  have a: "pd_in_range exynos5410 pd_cluster_down" and b: "pd_in_range exynos5410 (pd_of 0 True)"
    by (simp_all add: eval_pd pd_cluster_down_def)
  from cluster_state_asserted [OF a, where s = boot_state]
    cluster_state_asserted [OF b, where s = boot_state] a b
  show ?thesis
    by (simp add: eval_pd pd_cluster_down_def)
qed

text \<open>
  C8. If the device-tree node is absent or the CCI is not probed, \<^verbatim>\<open>edcs_init\<close> returns
  \<^verbatim>\<open>-ENODEV\<close> and leaves the state as it was: the tables are untouched, the entry vector is
  not written and nothing is registered.
\<close>

theorem edcs_init_not_applicable:
  assumes "\<not> in_node_found ini \<or> \<not> in_cci_probed ini"
  shows "edcs_init pf ini s = Return s (- ENODEV pf)"
  using assms by (auto simp add: edcs_init_def)

theorem edcs_init_not_applicable_witness:
  "\<not> in_node_found no_node \<and> \<not> in_cci_probed no_cci \<and> in_node_found no_cci \<and>
   edcs_init exynos5410 no_node (static_init boot_mmio) = Return (static_init boot_mmio) (- 19) \<and>
   edcs_init exynos5410 no_cci (static_init boot_mmio) = Return (static_init boot_mmio) (- 19) \<and>
   sint (- 19 :: c_int) = - 19 \<and>
   trace (static_init boot_mmio) = []"
proof -
  have a: "\<not> in_node_found no_node \<or> \<not> in_cci_probed no_node"
    and b: "\<not> in_node_found no_cci \<or> \<not> in_cci_probed no_cci"
    by (simp_all add: no_node_def no_cci_def boot_inputs_def)
  from edcs_init_not_applicable [OF a, of exynos5410 "static_init boot_mmio"]
    edcs_init_not_applicable [OF b, of exynos5410 "static_init boot_mmio"]
  show ?thesis
    by (simp add: no_node_def no_cci_def boot_inputs_def exynos5410_def static_init_def
        boot_mmio_def)
qed

text \<open>
  C9, as stated: two calls of the power gate with the same desired state produce exactly one
  bus write. This fails: when the status register already reads the desired state neither
  call writes, and when it reads another state at both calls (the code never changes what
  the status register reads) both calls write.
\<close>

theorem power_gate_twice_counterexample:
  "bus_writes (emitted powered_state
      (exynos_core_power_control exynos5410 0 0 True
         (exynos_core_power_control exynos5410 0 0 True powered_state))) = 0 \<and>
   bus_writes (emitted unpowered_state
      (exynos_core_power_control exynos5410 0 0 True
         (exynos_core_power_control exynos5410 0 0 True unpowered_state))) = 2"
  by (simp add: powered_state_def unpowered_state_def status_on_def status_off_def
      static_init_def exynos5410_def exynos_core_power_control_def emit_def emitted_def
      bus_writes_def Let_def)

text \<open>
  C9, amended. Each call of the power gate reads the core's status register first and writes
  the configuration register only when the low two bits it read differ from the desired
  value: such a call does exactly one bus write, a call that reads the desired state does
  none. So two calls with the same desired state, the status register reading the desired
  state at the second call (\<open>m'\<close> is what the registers read then), do one bus write in total
  when the first call reads another state, and none when it reads the desired state.
\<close>

theorem power_gate_write_on_difference:
  assumes "m' (EDCS_CORE_STATUS (cluster * MAX_CPUS_PER_CLUSTER pf + cpu)) AND 3 =
             (if enable then S5P_CORE_LOCAL_PWR_EN pf else 0)"
  shows "power_gate_events pf cpu cluster enable s =
           Readl_relaxed (EDCS_CORE_STATUS (cluster * MAX_CPUS_PER_CLUSTER pf + cpu)) #
           (if mmio s (EDCS_CORE_STATUS (cluster * MAX_CPUS_PER_CLUSTER pf + cpu)) AND 3 \<noteq>
                (if enable then S5P_CORE_LOCAL_PWR_EN pf else 0)
            then [Wmb, Writel_relaxed (if enable then S5P_CORE_LOCAL_PWR_EN pf else 0)
                    (EDCS_CORE_CONFIGURATION (cluster * MAX_CPUS_PER_CLUSTER pf + cpu))]
            else []) \<and>
         bus_writes (power_gate_events pf cpu cluster enable s) =
           (if mmio s (EDCS_CORE_STATUS (cluster * MAX_CPUS_PER_CLUSTER pf + cpu)) AND 3 =
                (if enable then S5P_CORE_LOCAL_PWR_EN pf else 0)
            then 0 else 1) \<and>
         bus_writes (power_gate_events pf cpu cluster enable
            ((exynos_core_power_control pf cpu cluster enable s)\<lparr>mmio := m'\<rparr>)) = 0 \<and>
         bus_writes (emitted s (exynos_core_power_control pf cpu cluster enable
            ((exynos_core_power_control pf cpu cluster enable s)\<lparr>mmio := m'\<rparr>))) =
           (if mmio s (EDCS_CORE_STATUS (cluster * MAX_CPUS_PER_CLUSTER pf + cpu)) AND 3 =
                (if enable then S5P_CORE_LOCAL_PWR_EN pf else 0)
            then 0 else 1)"
  using assms
  by (simp add: emitted_power_control bus_writes_simps)
     (simp add: power_gate_events_eq bus_writes_simps)

theorem power_gate_write_on_difference_witness:
  "status_on (EDCS_CORE_STATUS (0 * MAX_CPUS_PER_CLUSTER exynos5410 + 0)) AND 3 =
     (if True then S5P_CORE_LOCAL_PWR_EN exynos5410 else 0) \<and>
   power_gate_events exynos5410 0 0 True unpowered_state =
     [Readl_relaxed (EDCS_CORE_STATUS 0), Wmb, Writel_relaxed 3 (EDCS_CORE_CONFIGURATION 0)] \<and>
   bus_writes (emitted unpowered_state (exynos_core_power_control exynos5410 0 0 True
      ((exynos_core_power_control exynos5410 0 0 True unpowered_state)\<lparr>mmio := status_on\<rparr>))) = 1"
proof -
  have a: "status_on (EDCS_CORE_STATUS (0 * MAX_CPUS_PER_CLUSTER exynos5410 + 0)) AND 3 =
     (if True then S5P_CORE_LOCAL_PWR_EN exynos5410 else 0)"
    by (simp add: status_on_def exynos5410_def)
  from power_gate_write_on_difference [where m' = status_on and cluster = 0 and cpu = 0
      and pf = exynos5410 and enable = True and s = unpowered_state, OF a] a
  show ?thesis
    by (simp add: unpowered_state_def status_on_def status_off_def
      static_init_def exynos5410_def exynos_core_power_control_def emit_def emitted_def
      bus_writes_def Let_def power_gate_events_def)
qed

text \<open>
  C10. When the decrement in \<^verbatim>\<open>exynos_power_down\<close> yields use count 1, the core count of the
  cluster is left unchanged, the coordinator is not asked for the exclusive teardown and no
  whole-cluster event occurs. The core count changes, and the coordinator is asked, only
  when the decrement yields 0.
\<close>

theorem skip_path_keeps_core_count:
  assumes "returned (exynos_power_down pf inp s)"
  shows "(edcs_use_count s (pd_cpu pf inp) (pd_cluster pf inp) - 1 = 1 \<longrightarrow>
            core_count (final (exynos_power_down pf inp s)) = core_count s \<and>
            Mcpm_outbound_enter_critical (pd_cpu pf inp) (pd_cluster pf inp)
              \<notin> set (emitted s (final (exynos_power_down pf inp s))) \<and>
            \<not> list_ex is_cluster_event (emitted s (final (exynos_power_down pf inp s)))) \<and>
         (core_count (final (exynos_power_down pf inp s)) \<noteq> core_count s \<or>
          Mcpm_outbound_enter_critical (pd_cpu pf inp) (pd_cluster pf inp)
              \<in> set (emitted s (final (exynos_power_down pf inp s))) \<longrightarrow>
            edcs_use_count s (pd_cpu pf inp) (pd_cluster pf inp) - 1 = 0)"
proof -
  note r = power_down_returned [OF assms]
  show ?thesis
  proof (cases "edcs_use_count s (pd_cpu pf inp) (pd_cluster pf inp) - 1 = 0")
    case True
    then show ?thesis by simp
  next
    case False
    with r(3) have one: "edcs_use_count s (pd_cpu pf inp) (pd_cluster pf inp) - 1 = 1" by simp
    have "core_count (final (exynos_power_down pf inp s)) = core_count s"
      using one by (simp add: power_down_unfold [OF r(1,2)] Let_def)
    moreover have "emitted s (final (exynos_power_down pf inp s)) =
        [Mcpm_cpu_going_down (pd_cpu pf inp) (pd_cluster pf inp), Arch_spin_lock,
         Arch_spin_unlock, Asm_flush_dcache_louis,
         Mcpm_cpu_down (pd_cpu pf inp) (pd_cluster pf inp)]"
      using one by (simp add: power_down_emitted [OF assms] tail_events_def)
    ultimately show ?thesis
      using one by (simp add: is_cluster_event_def)
  qed
qed

theorem skip_path_keeps_core_count_witness:
  "returned (exynos_power_down exynos5410 (pd_of 0 True) raced_state) \<and>
   edcs_use_count raced_state 0 0 - 1 = 1 \<and>
   core_count raced_state 0 = 1 \<and>
   core_count (final (exynos_power_down exynos5410 (pd_of 0 True) raced_state)) 0 = 1 \<and>
   returned (exynos_power_down exynos5410 (pd_of 0 True) boot_state) \<and>
   core_count (final (exynos_power_down exynos5410 (pd_of 0 True) boot_state)) \<noteq>
     core_count boot_state \<and>
   edcs_use_count boot_state 0 0 - 1 = 0"
proof -
  have a: "returned (exynos_power_down exynos5410 (pd_of 0 True) raced_state)"
    and b: "returned (exynos_power_down exynos5410 (pd_of 0 True) boot_state)"
    by (simp_all add: eval_pd)
  have c: "core_count (final (exynos_power_down exynos5410 (pd_of 0 True) boot_state)) 0 \<noteq>
      core_count boot_state 0"
    by (simp add: eval_pd)
  then have d: "core_count (final (exynos_power_down exynos5410 (pd_of 0 True) boot_state)) \<noteq>
      core_count boot_state"
    by metis
  from skip_path_keeps_core_count [OF a] skip_path_keeps_core_count [OF b] a b d
  show ?thesis
    by (simp add: eval_pd)
qed

end
